theory Spec2Isabelle
  imports Main "HOL-Library.Multiset"
begin

section \<open>motop: a shallow embedding of motop.py\<close>

text \<open>
  The embedding follows the Python source class by class. Exceptions are values of the
  type \<open>error\<close>; a method that can raise returns \<open>error + 'a\<close> (\<open>Inl\<close> the exception),
  and a method that mutates its object also returns the object as it is left, on the
  failing paths too. Replies of the MongoDB connection are inputs of the model.
  The arithmetic is that of Python 3, where \<open>/\<close> on integers is true division.
\<close>

datatype error =
    AssertionError
  | AttributeError
  | IndexError
  | KeyError string
  | ConnectionFailure

type_synonym 'a result = "error + 'a"

subsection \<open>Python primitives\<close>

text \<open>\<open>int.__str__\<close>: the decimal numeral, with a minus sign below zero.\<close>

definition digit_char :: "nat \<Rightarrow> char" where
  "digit_char d = char_of (48 + d)"

fun str_nat :: "nat \<Rightarrow> string" where
  "str_nat n = (if n < 10 then [digit_char n] else str_nat (n div 10) @ [digit_char (n mod 10)])"

declare str_nat.simps [simp del]

definition str_int :: "int \<Rightarrow> string" where
  "str_int i = (if i < 0 then CHR ''-'' # str_nat (nat (- i)) else str_nat (nat i))"

text \<open>
  \<open>int (round (a / b))\<close> for a positive divisor: Python 3 divides two integers into a
  float and \<open>round\<close> takes the nearest integer, a tie going to the even neighbour.
  The model rounds the exact quotient. The float quotient is the exact one rounded to
  53 bits, and below \<open>2 ^ 53\<close> that rounding never reaches or crosses a half for the
  divisors used here, so there both give the same integer.
\<close>

definition py_round_div :: "int \<Rightarrow> int \<Rightarrow> int" where
  "py_round_div a b =
     (let q = a div b; r = a mod b
      in if 2 * r < b then q else if b < 2 * r then q + 1 else if even q then q else q + 1)"

text \<open>\<open>sorted (xs, key = f, reverse = r)\<close>: stable; with \<open>reverse\<close> the keys descend and
  equal keys keep the order of the input.\<close>

definition py_sorted :: "('a \<Rightarrow> 'k::linorder) \<Rightarrow> bool \<Rightarrow> 'a list \<Rightarrow> 'a list" where
  "py_sorted f reverse xs = (if reverse then rev (sort_key f (rev xs)) else sort_key f xs)"

text \<open>The slice \<open>xs [:m]\<close>: a negative bound counts from the end.\<close>

definition py_slice_to :: "'a list \<Rightarrow> int \<Rightarrow> 'a list" where
  "py_slice_to xs m = (if 0 \<le> m then take (nat m) xs else take (nat (int (length xs) + m)) xs)"

text \<open>\<open>str.ljust\<close>: pad with spaces on the right up to the width.\<close>

definition ljust :: "string \<Rightarrow> nat \<Rightarrow> string" where
  "ljust s w = s @ replicate (w - length s) CHR '' ''"

subsection \<open>class Value\<close>

definition Value_str :: "int \<Rightarrow> string" where
  "Value_str self =
     (if self > 10 ^ 12 then str_int (py_round_div self (10 ^ 12)) @ ''T''
      else if self > 10 ^ 9 then str_int (py_round_div self (10 ^ 9)) @ ''G''
      else if self > 10 ^ 6 then str_int (py_round_div self (10 ^ 6)) @ ''M''
      else if self > 10 ^ 3 then str_int (py_round_div self (10 ^ 3)) @ ''K''
      else str_int self)"

text \<open>The rule of the rendering as the specification words it: the thresholds with
  their suffixes, largest first, of which the largest one exceeded is taken.\<close>

definition units :: "(int \<times> string) list" where
  "units = [(10 ^ 12, ''T''), (10 ^ 9, ''G''), (10 ^ 6, ''M''), (10 ^ 3, ''K'')]"

subsection \<open>class ListPrinter\<close>

text \<open>
  The table is generic in the class of its rows. The methods of \<open>Printable\<close> that it
  calls are parameters of the functions below: \<open>sortOrderOf\<close> and \<open>lineOf\<close> for
  \<open>sortOrder ()\<close> and \<open>line ()\<close>, and \<open>isPrintable\<close> for the test
  \<open>isinstance (printable, Printable)\<close>. The attribute \<open>__printables\<close> does not exist
  before the first \<open>reset\<close>: it is \<open>None\<close> then.
\<close>

record 'p ListPrinter =
  columnHeaders :: "string list"
  columnWidths :: "nat list"
  maxLine :: "int option"
  descendingOrder :: bool
  printables :: "'p list option"

definition ListPrinter_init :: "string list \<Rightarrow> bool \<Rightarrow> int option \<Rightarrow> 'p ListPrinter" where
  "ListPrinter_init headers descending maxL =
     \<lparr>columnHeaders = headers,
      columnWidths = map (\<lambda>columnHeader. length columnHeader + 2) headers,
      maxLine = maxL,
      descendingOrder = descending,
      printables = None\<rparr>"

text \<open>\<open>reset\<close> stores the sorted, truncated rows and only then asserts their class, so the
  rows are stored on the failing path as well. A \<open>maxLine\<close> of \<open>None\<close> or \<open>0\<close> is falsy:
  nothing is cut then.\<close>

definition reset ::
  "('p \<Rightarrow> bool) \<Rightarrow> ('p \<Rightarrow> 'k::linorder) \<Rightarrow> 'p ListPrinter \<Rightarrow> 'p list \<Rightarrow> unit result \<times> 'p ListPrinter"
where
  "reset isPrintable sortOrderOf self ps =
     (let ordered = py_sorted sortOrderOf (descendingOrder self) ps;
          kept = (case maxLine self of
                    None \<Rightarrow> ordered
                  | Some m \<Rightarrow> if m \<noteq> 0 then py_slice_to ordered m else ordered)
      in (if list_all isPrintable kept then Inr () else Inl AssertionError,
          self\<lparr>printables := Some kept\<rparr>))"

text \<open>The header loop of \<open>printLines\<close> from column \<open>index\<close> on: the result and the text
  printed.\<close>

fun printHeaders :: "nat list \<Rightarrow> nat \<Rightarrow> string list \<Rightarrow> unit result \<times> string" where
  "printHeaders ws index [] = (Inr (), [])"
| "printHeaders ws index (columnHeader # hs) =
     (if index < length ws then
        (case printHeaders ws (Suc index) hs of
           (r, out) \<Rightarrow> (r, ljust columnHeader (ws ! index) @ out))
      else (Inl IndexError, []))"

text \<open>The inner loop of \<open>printLines\<close> over the cells of one row from column \<open>index\<close> on:
  the result, the widths as they are left and the text printed. A row with more cells
  than the table has columns raises \<open>IndexError\<close> at the first cell beyond them. The
  cells are strings by their type, so the assertion on the class of a cell has no
  failing branch.\<close>

fun printCells :: "nat list \<Rightarrow> nat \<Rightarrow> string list \<Rightarrow> unit result \<times> nat list \<times> string" where
  "printCells ws index [] = (Inr (), ws, [])"
| "printCells ws index (cell # cells) =
     (if index < length ws then
        (case printCells
                (if length cell + 2 > ws ! index then ws[index := length cell + 2] else ws)
                (Suc index) cells of
           (r, ws', out) \<Rightarrow>
             (r, ws',
              ljust cell
                ((if length cell + 2 > ws ! index then ws[index := length cell + 2] else ws) ! index)
              @ out))
      else (Inl IndexError, ws, []))"

text \<open>The outer loop over the rows, each given by its cells; a line feed ends a row.\<close>

fun printRows :: "nat list \<Rightarrow> string list list \<Rightarrow> unit result \<times> nat list \<times> string" where
  "printRows ws [] = (Inr (), ws, [])"
| "printRows ws (row # rows) =
     (case printCells ws 0 row of
        (Inl e, ws', out) \<Rightarrow> (Inl e, ws', out)
      | (Inr u, ws', out) \<Rightarrow>
          (case printRows ws' rows of
             (r, ws'', out') \<Rightarrow> (r, ws'', out @ [CHR 0x0A] @ out')))"

definition printLines ::
  "('p \<Rightarrow> string list) \<Rightarrow> 'p ListPrinter \<Rightarrow> unit result \<times> 'p ListPrinter \<times> string"
where
  "printLines lineOf self =
     (case printHeaders (columnWidths self) 0 (columnHeaders self) of
        (Inl e, out) \<Rightarrow> (Inl e, self, out)
      | (Inr u, out) \<Rightarrow>
          (case printables self of
             None \<Rightarrow> (Inl AttributeError, self, out @ [CHR 0x0A])
           | Some ps \<Rightarrow>
               (case printRows (columnWidths self) (map lineOf ps) of
                  (r, ws, out') \<Rightarrow> (r, self\<lparr>columnWidths := ws\<rparr>, out @ [CHR 0x0A] @ out'))))"

text \<open>The \<open>while\<close> loop of \<open>getLine\<close>, on the cells from \<open>index\<close> on of the row and of the
  argument: \<open>Inr (\<not> different)\<close> when the loop ends, \<open>IndexError\<close> when the row runs out
  of cells while the argument has one more and nothing has differed.\<close>

fun compareCells :: "string list \<Rightarrow> string list \<Rightarrow> bool result" where
  "compareCells printableLine [] = Inr True"
| "compareCells [] (c # line) = Inl IndexError"
| "compareCells (p # printableLine) (c # line) =
     (if p \<noteq> c then Inr False else compareCells printableLine line)"

fun scanLines :: "('p \<Rightarrow> string list) \<Rightarrow> 'p list \<Rightarrow> string list \<Rightarrow> 'p option result" where
  "scanLines lineOf [] line = Inr None"
| "scanLines lineOf (printable # ps) line =
     (case compareCells (lineOf printable) line of
        Inl e \<Rightarrow> Inl e
      | Inr True \<Rightarrow> Inr (Some printable)
      | Inr False \<Rightarrow> scanLines lineOf ps line)"

definition getLine :: "('p \<Rightarrow> string list) \<Rightarrow> 'p ListPrinter \<Rightarrow> string list \<Rightarrow> 'p option result" where
  "getLine lineOf self line =
     (case printables self of
        None \<Rightarrow> Inl AttributeError
      | Some ps \<Rightarrow> scanLines lineOf ps line)"

text \<open>A row of cells, each left-justified to the width of its column: the text of a
  row as the table's print is described.\<close>

definition justified :: "nat list \<Rightarrow> string list \<Rightarrow> string" where
  "justified ws cells = concat (map2 ljust cells ws)"

text \<open>The calls a table receives in its life, and the table after a sequence of them.\<close>

datatype 'p call = Reset "'p list" | PrintLines | GetLine "string list"

fun run ::
  "('p \<Rightarrow> bool) \<Rightarrow> ('p \<Rightarrow> 'k::linorder) \<Rightarrow> ('p \<Rightarrow> string list) \<Rightarrow> 'p ListPrinter \<Rightarrow> 'p call list \<Rightarrow> 'p ListPrinter"
where
  "run isPrintable sortOrderOf lineOf self [] = self"
| "run isPrintable sortOrderOf lineOf self (Reset ps # calls) =
     run isPrintable sortOrderOf lineOf (snd (reset isPrintable sortOrderOf self ps)) calls"
| "run isPrintable sortOrderOf lineOf self (PrintLines # calls) =
     run isPrintable sortOrderOf lineOf (fst (snd (printLines lineOf self))) calls"
| "run isPrintable sortOrderOf lineOf self (GetLine line # calls) =
     run isPrintable sortOrderOf lineOf self calls"

subsection \<open>class Server\<close>

text \<open>The connection itself is outside the model: \<open>Connection (address)\<close> is a parameter
  of the constructor that says whether connecting raises.\<close>

record Server =
  name :: string
  address :: string
  operationCount :: int
  flushCount :: int

definition Server_init :: "string \<Rightarrow> string \<Rightarrow> (string \<Rightarrow> error option) \<Rightarrow> Server result" where
  "Server_init nm addr Connection =
     (if \<not> length nm < 14 then Inl AssertionError
      else (case Connection addr of
              Some e \<Rightarrow> Inl e
            | None \<Rightarrow> Inr \<lparr>name = nm, address = addr, operationCount = 0, flushCount = 0\<rparr>))"

definition Server_str :: "Server \<Rightarrow> string" where
  "Server_str self = name self"

text \<open>\<open>opcounters\<close> is a dictionary: its items, key and count.\<close>

definition getOperationCountChange :: "Server \<Rightarrow> (string \<times> int) list \<Rightarrow> int \<times> Server" where
  "getOperationCountChange self operationCounts =
     (let oldOperationCount = operationCount self;
          self' = self\<lparr>operationCount := sum_list (map snd operationCounts)\<rparr>
      in (operationCount self' - oldOperationCount, self'))"

definition getFlushCountChange :: "Server \<Rightarrow> int \<Rightarrow> int \<times> Server" where
  "getFlushCountChange self flushes =
     (let oldFlushCount = flushCount self;
          self' = self\<lparr>flushCount := flushes\<rparr>
      in (flushCount self' - oldFlushCount, self'))"

text \<open>Successive calls on one server, one per tick: the deltas returned.\<close>

fun flushDeltas :: "Server \<Rightarrow> int list \<Rightarrow> int list" where
  "flushDeltas self [] = []"
| "flushDeltas self (v # vs) =
     (case getFlushCountChange self v of (d, self') \<Rightarrow> d # flushDeltas self' vs)"

fun operationDeltas :: "Server \<Rightarrow> (string \<times> int) list list \<Rightarrow> int list" where
  "operationDeltas self [] = []"
| "operationDeltas self (c # cs) =
     (case getOperationCountChange self c of (d, self') \<Rightarrow> d # operationDeltas self' cs)"

subsection \<open>classes Operation and Query\<close>

text \<open>The query document is kept as its text \<open>json.dumps (body)\<close>; \<open>secs_running\<close> is
  an integer when present.\<close>

type_synonym body = string

datatype operation =
    Operation Server int
  | Query Server int string body "int option"

fun sortOrder :: "operation \<Rightarrow> int" where
  "sortOrder (Operation server opid) = -1 * opid"
| "sortOrder (Query server opid namespace b duration) =
     (case duration of None \<Rightarrow> 0 | Some d \<Rightarrow> if d \<noteq> 0 then d else 0)"

fun line :: "operation \<Rightarrow> string list" where
  "line (Operation server opid) = [Server_str server, str_int opid]"
| "line (Query server opid namespace b duration) =
     [Server_str server, str_int opid, namespace,
      (case duration of None \<Rightarrow> ''None'' | Some d \<Rightarrow> str_int d),
      take 80 b]"

text \<open>Both classes derive from \<open>Printable\<close>.\<close>

definition isPrintable :: "operation \<Rightarrow> bool" where
  "isPrintable p = True"

definition Query_listPrinter :: "operation ListPrinter" where
  "Query_listPrinter =
     ListPrinter_init [''Server'', ''OpId'', ''Namespace'', ''Sec'', ''Query''] True (Some 30)"

subsection \<open>Server.currentOperations and the listing of the main loop\<close>

text \<open>A record of \<open>inprog\<close> is a dictionary; of its keys the code reads five, and a key
  that is absent is \<open>None\<close>.\<close>

record inprog =
  inprog_op :: "string option"
  inprog_opid :: "int option"
  inprog_ns :: "string option"
  inprog_query :: "body option"
  inprog_secs_running :: "int option"

definition getitem :: "string \<Rightarrow> 'a option \<Rightarrow> 'a result" where
  "getitem k v = (case v of None \<Rightarrow> Inl (KeyError k) | Some x \<Rightarrow> Inr x)"

text \<open>The body of the loop: what one record yields.\<close>

definition yieldOperation :: "Server \<Rightarrow> inprog \<Rightarrow> operation result" where
  "yieldOperation self r =
     (case getitem ''op'' (inprog_op r) of
        Inl e \<Rightarrow> Inl e
      | Inr kind \<Rightarrow>
          if kind = ''query'' then
            (case inprog_secs_running r of
               Some secs \<Rightarrow>
                 (case getitem ''opid'' (inprog_opid r) of Inl e \<Rightarrow> Inl e | Inr opid \<Rightarrow>
                  case getitem ''ns'' (inprog_ns r) of Inl e \<Rightarrow> Inl e | Inr ns \<Rightarrow>
                  case getitem ''query'' (inprog_query r) of Inl e \<Rightarrow> Inl e | Inr q \<Rightarrow>
                    Inr (Query self opid ns q (Some secs)))
             | None \<Rightarrow>
                 (case getitem ''opid'' (inprog_opid r) of Inl e \<Rightarrow> Inl e | Inr opid \<Rightarrow>
                  case getitem ''ns'' (inprog_ns r) of Inl e \<Rightarrow> Inl e | Inr ns \<Rightarrow>
                  case getitem ''query'' (inprog_query r) of Inl e \<Rightarrow> Inl e | Inr q \<Rightarrow>
                    Inr (Query self opid ns q None)))
          else
            (case getitem ''opid'' (inprog_opid r) of Inl e \<Rightarrow> Inl e | Inr opid \<Rightarrow>
               Inr (Operation self opid)))"

fun yieldOperations :: "Server \<Rightarrow> inprog list \<Rightarrow> operation list result" where
  "yieldOperations self [] = Inr []"
| "yieldOperations self (r # rs) =
     (case yieldOperation self r of
        Inl e \<Rightarrow> Inl e
      | Inr x \<Rightarrow> (case yieldOperations self rs of Inl e \<Rightarrow> Inl e | Inr xs \<Rightarrow> Inr (x # xs)))"

text \<open>The generator, run to its end as the main loop does; \<open>current_op\<close> is the reply of
  the remote call, or the exception it raised.\<close>

definition currentOperations :: "Server \<Rightarrow> inprog list result \<Rightarrow> operation list result" where
  "currentOperations self current_op =
     (case current_op of Inl e \<Rightarrow> Inl e | Inr rs \<Rightarrow> yieldOperations self rs)"

text \<open>The comprehension
  \<open>[operation for server in servers for operation in server.currentOperations ()]\<close>
  of the main loop, every server with the reply of its remote call.\<close>

fun main_operations :: "(Server \<times> inprog list result) list \<Rightarrow> operation list result" where
  "main_operations [] = Inr []"
| "main_operations ((server, current_op) # servers) =
     (case currentOperations server current_op of
        Inl e \<Rightarrow> Inl e
      | Inr ops \<Rightarrow>
          (case main_operations servers of Inl e \<Rightarrow> Inl e | Inr ops' \<Rightarrow> Inr (ops @ ops')))"

text \<open>\<open>Query.listPrinter.reset (...)\<close> on that list: an exception of the listing leaves the
  table as it was.\<close>

definition main_reset ::
  "operation ListPrinter \<Rightarrow> (Server \<times> inprog list result) list \<Rightarrow> unit result \<times> operation ListPrinter"
where
  "main_reset table servers =
     (case main_operations servers of
        Inl e \<Rightarrow> (Inl e, table)
      | Inr ops \<Rightarrow> reset isPrintable sortOrder table ops)"

subsection \<open>Example objects\<close>

definition srv1 :: Server where
  "srv1 = \<lparr>name = ''srv1'', address = ''10.0.0.1'', operationCount = 0, flushCount = 0\<rparr>"

definition srv2 :: Server where
  "srv2 = \<lparr>name = ''srv2'', address = ''10.0.0.2'', operationCount = 0, flushCount = 0\<rparr>"

definition queries45 :: "operation list" where
  "queries45 = map (\<lambda>i. Query srv1 (int i) ''db.c'' ''{}'' (Some (int i))) [0..<45]"

text \<open>The operations table after a tick in which \<open>srv1\<close> reports a query and \<open>srv2\<close> an
  operation of another kind.\<close>

definition opsTable :: "operation ListPrinter" where
  "opsTable =
     snd (reset isPrintable sortOrder Query_listPrinter
            [Operation srv2 202, Query srv1 101 ''inventory.orders'' ''{}'' (Some 3)])"

definition queryRecord :: inprog where
  "queryRecord =
     \<lparr>inprog_op = Some ''query'', inprog_opid = Some 101, inprog_ns = Some ''inventory.orders'',
      inprog_query = Some ''{}'', inprog_secs_running = Some 3\<rparr>"

definition idleQueryRecord :: inprog where
  "idleQueryRecord =
     \<lparr>inprog_op = Some ''query'', inprog_opid = Some 102, inprog_ns = Some ''inventory.orders'',
      inprog_query = Some ''{}'', inprog_secs_running = None\<rparr>"

definition insertRecord :: inprog where
  "insertRecord =
     \<lparr>inprog_op = Some ''insert'', inprog_opid = Some 202, inprog_ns = Some ''inventory.orders'',
      inprog_query = Some ''{}'', inprog_secs_running = Some 1\<rparr>"

section \<open>Properties\<close>

subsection \<open>Value: the scaled rendering\<close>

lemma py_round_div_nearest: "0 < b \<Longrightarrow> 2 * \<bar>a - b * py_round_div a b\<bar> \<le> b"
proof -
  assume b: "0 < b"
  define q where "q = a div b"
  define r where "r = a mod b"
  have e: "a = b * q + r" using q_def r_def by simp
  have r: "0 \<le> r" "r < b" using b r_def by simp_all
  have "py_round_div a b =
          (if 2 * r < b then q else if b < 2 * r then q + 1 else if even q then q else q + 1)"
    by (simp add: py_round_div_def Let_def q_def r_def)
  then show ?thesis using e r by (auto simp: algebra_simps abs_if)
qed

lemma Value_str_find:
  "Value_str n = (case List.find (\<lambda>(t, s). t < n) units of
                    None \<Rightarrow> str_int n
                  | Some (t, s) \<Rightarrow> str_int (py_round_div n t) @ s)"
  by (simp add: Value_str_def units_def)

lemma Value_str_examples:
  "Value_str 999 = ''999'' \<and> Value_str 1500 = ''2K'' \<and>
   Value_str 999999 = ''1000K'' \<and> Value_str 1234567890 = ''1G''"
  by code_simp

text \<open>
  C4, as the claim states it, fails at 999999: that value does not exceed \<open>10 ^ 6\<close>, so
  it is divided by \<open>10 ^ 3\<close> and rendered \<open>1000K\<close>, not \<open>1M\<close>.
\<close>

theorem Value_str_999999_counterexample:
  "Value_str 999999 = ''1000K'' \<and> Value_str 999999 \<noteq> ''1M''"
  by code_simp

text \<open>
  C4 (amended): for every non-negative integer below \<open>2 ^ 53\<close>, \<open>Value.__str__\<close> divides
  by the largest of \<open>10 ^ 12\<close>, \<open>10 ^ 9\<close>, \<open>10 ^ 6\<close>, \<open>10 ^ 3\<close> that the value exceeds, rounds to
  a nearest integer and appends T, G, M or K; a value that does not exceed \<open>10 ^ 3\<close> is
  rendered as the plain integer. In particular 999 renders as \<open>999\<close>, 1500 as \<open>2K\<close>,
  999999 as \<open>1000K\<close> and 1234567890 as \<open>1G\<close>.
\<close>

theorem Value_str_rendering:
  assumes "0 \<le> n" and "n < 2 ^ 53"
  shows "Value_str n = (case List.find (\<lambda>(t, s). t < n) units of
                          None \<Rightarrow> str_int n
                        | Some (t, s) \<Rightarrow> str_int (py_round_div n t) @ s) \<and>
         (n \<le> 10 ^ 3 \<longrightarrow> Value_str n = str_int n) \<and>
         (\<forall>(t, s) \<in> set units. 2 * \<bar>n - t * py_round_div n t\<bar> \<le> t) \<and>
         Value_str 999 = ''999'' \<and> Value_str 1500 = ''2K'' \<and>
         Value_str 999999 = ''1000K'' \<and> Value_str 1234567890 = ''1G''"
proof -
  have "n \<le> 10 ^ 3 \<longrightarrow> Value_str n = str_int n"
    by (simp add: Value_str_def)
  moreover have "\<forall>(t, s) \<in> set units. 2 * \<bar>n - t * py_round_div n t\<bar> \<le> t"
    by (simp add: units_def py_round_div_nearest)
  ultimately show ?thesis
    using Value_str_find [of n] Value_str_examples by simp
qed

theorem Value_str_rendering_witness:
  "(0::int) \<le> 2500 \<and> (2500::int) < 2 ^ 53 \<and>
   List.find (\<lambda>(t, s). t < 2500) units = Some (10 ^ 3, ''K'') \<and>
   py_round_div 2500 (10 ^ 3) = 2 \<and>
   Value_str 2500 = ''2K''"
proof -
  have h: "(0::int) \<le> 2500" "(2500::int) < 2 ^ 53" by simp_all
  have f: "List.find (\<lambda>(t, s). t < 2500) units = Some (10 ^ 3, ''K'')"
    by (simp add: units_def)
  have r: "py_round_div 2500 (10 ^ 3) = 2" by (simp add: py_round_div_def)
  have s: "str_int 2 = ''2''" by code_simp
  from Value_str_rendering [OF h] f r s show ?thesis by simp
qed

subsection \<open>Server: the constructor and the snapshot counters\<close>

text \<open>
  C9: the constructor of \<open>Server\<close> requires a name shorter than 14 characters. For a
  name of 14 characters or more it fails its assertion whatever connecting would do
  (the connection is not tried), and a server that was constructed has a name of at
  most 13 characters.
\<close>

theorem Server_init_name_length:
  "(14 \<le> length nm \<longrightarrow> Server_init nm addr Connection = Inl AssertionError) \<and>
   (Server_init nm addr Connection = Inr s \<longrightarrow> name s = nm \<and> length (name s) \<le> 13)"
  by (auto simp: Server_init_def split: if_splits option.splits)

theorem Server_init_name_length_witness:
  "14 \<le> length ''mongo-shard-14'' \<and>
   Server_init ''mongo-shard-14'' ''10.0.0.9'' (\<lambda>a. None) = Inl AssertionError \<and>
   Server_init ''srv1'' ''10.0.0.1'' (\<lambda>a. None) = Inr srv1 \<and>
   name srv1 = ''srv1'' \<and> length (name srv1) \<le> 13"
  using Server_init_name_length [of "''mongo-shard-14''" "''10.0.0.9''" "\<lambda>a. None" srv1]
    Server_init_name_length [of "''srv1''" "''10.0.0.1''" "\<lambda>a. None" srv1]
  by (simp add: Server_init_def srv1_def)

lemma flushDeltas_length: "length (flushDeltas s vs) = length vs"
  by (induction vs arbitrary: s) (auto simp: getFlushCountChange_def)

lemma flushDeltas_nth:
  "i < length vs \<Longrightarrow> flushDeltas s vs ! i = vs ! i - (flushCount s # vs) ! i"
proof (induction vs arbitrary: s i)
  case Nil
  then show ?case by simp
next
  case (Cons v vs)
  show ?case
  proof (cases i)
    case 0
    then show ?thesis by (simp add: getFlushCountChange_def)
  next
    case (Suc k)
    with Cons.prems have "k < length vs" by simp
    from Cons.IH [OF this, of "s\<lparr>flushCount := v\<rparr>"] Suc
    show ?thesis by (simp add: getFlushCountChange_def)
  qed
qed

lemma flushDeltas_nonneg:
  "sorted (flushCount s # vs) \<Longrightarrow> d \<in> set (flushDeltas s vs) \<Longrightarrow> 0 \<le> d"
proof (induction vs arbitrary: s)
  case Nil
  then show ?case by simp
next
  case (Cons v vs)
  from Cons.prems(1) have le: "flushCount s \<le> v" and srt: "sorted (v # vs)" by simp_all
  from Cons.prems(2)
  have "d = v - flushCount s \<or> d \<in> set (flushDeltas (s\<lparr>flushCount := v\<rparr>) vs)"
    by (simp add: getFlushCountChange_def)
  then show ?case
  proof
    assume "d = v - flushCount s"
    with le show ?thesis by simp
  next
    assume "d \<in> set (flushDeltas (s\<lparr>flushCount := v\<rparr>) vs)"
    moreover have "sorted (flushCount (s\<lparr>flushCount := v\<rparr>) # vs)" using srt by simp
    ultimately show ?thesis by (rule Cons.IH [rotated])
  qed
qed

lemma operationDeltas_length: "length (operationDeltas s cs) = length cs"
  by (induction cs arbitrary: s) (auto simp: getOperationCountChange_def)

lemma operationDeltas_nth:
  "i < length cs \<Longrightarrow>
   operationDeltas s cs ! i =
   sum_list (map snd (cs ! i)) - (operationCount s # map (\<lambda>c. sum_list (map snd c)) cs) ! i"
proof (induction cs arbitrary: s i)
  case Nil
  then show ?case by simp
next
  case (Cons c cs)
  show ?case
  proof (cases i)
    case 0
    then show ?thesis by (simp add: getOperationCountChange_def)
  next
    case (Suc k)
    with Cons.prems have "k < length cs" by simp
    from Cons.IH [OF this, of "s\<lparr>operationCount := sum_list (map snd c)\<rparr>"] Suc
    show ?thesis by (simp add: getOperationCountChange_def)
  qed
qed

lemma operationDeltas_nonneg:
  "sorted (operationCount s # map (\<lambda>c. sum_list (map snd c)) cs) \<Longrightarrow>
   d \<in> set (operationDeltas s cs) \<Longrightarrow> 0 \<le> d"
proof (induction cs arbitrary: s)
  case Nil
  then show ?case by simp
next
  case (Cons c cs)
  let ?v = "sum_list (map snd c)"
  from Cons.prems(1) have le: "operationCount s \<le> ?v"
    and srt: "sorted (?v # map (\<lambda>c. sum_list (map snd c)) cs)" by simp_all
  from Cons.prems(2)
  have "d = ?v - operationCount s \<or> d \<in> set (operationDeltas (s\<lparr>operationCount := ?v\<rparr>) cs)"
    by (simp add: getOperationCountChange_def)
  then show ?case
  proof
    assume "d = ?v - operationCount s"
    with le show ?thesis by simp
  next
    assume "d \<in> set (operationDeltas (s\<lparr>operationCount := ?v\<rparr>) cs)"
    moreover have "sorted (operationCount (s\<lparr>operationCount := ?v\<rparr>) #
                           map (\<lambda>c. sum_list (map snd c)) cs)"
      using srt by simp
    ultimately show ?thesis by (rule Cons.IH [rotated])
  qed
qed

text \<open>
  C2: both counters of a constructed server start at 0. A delta call stores the new
  cumulative value (for the operation count, the sum of the counters' values) and
  returns new minus old: from 0, the value 50 gives 50 and then 70 gives 20. Over any
  sequence of calls every delta is the current value minus the previous one (the
  stored value, for the first call), and when the values never decrease, starting
  from the stored one, no delta is negative.
\<close>

theorem snapshot_counter_delta:
  "(Server_init nm addr Connection = Inr s0 \<longrightarrow> operationCount s0 = 0 \<and> flushCount s0 = 0) \<and>
   getFlushCountChange s v = (v - flushCount s, s\<lparr>flushCount := v\<rparr>) \<and>
   getOperationCountChange s c =
     (sum_list (map snd c) - operationCount s, s\<lparr>operationCount := sum_list (map snd c)\<rparr>) \<and>
   (flushCount s = 0 \<longrightarrow> flushDeltas s [50, 70] = [50, 20]) \<and>
   (operationCount s = 0 \<longrightarrow>
      operationDeltas s [[(''query'', 30), (''insert'', 20)], [(''query'', 45), (''insert'', 25)]]
      = [50, 20]) \<and>
   length (flushDeltas s vs) = length vs \<and>
   (\<forall>i < length vs. flushDeltas s vs ! i = vs ! i - (flushCount s # vs) ! i) \<and>
   (sorted (flushCount s # vs) \<longrightarrow> (\<forall>d \<in> set (flushDeltas s vs). 0 \<le> d)) \<and>
   length (operationDeltas s cs) = length cs \<and>
   (\<forall>i < length cs. operationDeltas s cs ! i =
      sum_list (map snd (cs ! i)) - (operationCount s # map (\<lambda>c. sum_list (map snd c)) cs) ! i) \<and>
   (sorted (operationCount s # map (\<lambda>c. sum_list (map snd c)) cs) \<longrightarrow>
      (\<forall>d \<in> set (operationDeltas s cs). 0 \<le> d))"
proof -
  have "Server_init nm addr Connection = Inr s0 \<longrightarrow> operationCount s0 = 0 \<and> flushCount s0 = 0"
    by (auto simp: Server_init_def split: if_splits option.splits)
  moreover have "getFlushCountChange s v = (v - flushCount s, s\<lparr>flushCount := v\<rparr>)"
    by (simp add: getFlushCountChange_def)
  moreover have "getOperationCountChange s c =
     (sum_list (map snd c) - operationCount s, s\<lparr>operationCount := sum_list (map snd c)\<rparr>)"
    by (simp add: getOperationCountChange_def)
  moreover have "flushCount s = 0 \<longrightarrow> flushDeltas s [50, 70] = [50, 20]"
    by (simp add: getFlushCountChange_def)
  moreover have "operationCount s = 0 \<longrightarrow>
      operationDeltas s [[(''query'', 30), (''insert'', 20)], [(''query'', 45), (''insert'', 25)]]
      = [50, 20]"
    by (simp add: getOperationCountChange_def)
  moreover have "\<forall>i < length vs. flushDeltas s vs ! i = vs ! i - (flushCount s # vs) ! i"
    using flushDeltas_nth by blast
  moreover have "sorted (flushCount s # vs) \<longrightarrow> (\<forall>d \<in> set (flushDeltas s vs). 0 \<le> d)"
    using flushDeltas_nonneg by blast
  moreover have "\<forall>i < length cs. operationDeltas s cs ! i =
      sum_list (map snd (cs ! i)) - (operationCount s # map (\<lambda>c. sum_list (map snd c)) cs) ! i"
    using operationDeltas_nth by blast
  moreover have "sorted (operationCount s # map (\<lambda>c. sum_list (map snd c)) cs) \<longrightarrow>
      (\<forall>d \<in> set (operationDeltas s cs). 0 \<le> d)"
    using operationDeltas_nonneg by blast
  ultimately show ?thesis
    using flushDeltas_length [of s vs] operationDeltas_length [of s cs] by blast
qed

theorem snapshot_counter_delta_witness:
  "Server_init ''srv1'' ''10.0.0.1'' (\<lambda>a. None) = Inr srv1 \<and>
   operationCount srv1 = 0 \<and> flushCount srv1 = 0 \<and>
   sorted (flushCount srv1 # [50, 70, 70, 95]) \<and>
   flushDeltas srv1 [50, 70, 70, 95] = [50, 20, 0, 25] \<and>
   sorted (operationCount srv1 #
           map (\<lambda>c. sum_list (map snd c)) [[(''query'', 30), (''insert'', 20)], [(''query'', 70)]]) \<and>
   operationDeltas srv1 [[(''query'', 30), (''insert'', 20)], [(''query'', 70)]] = [50, 20]"
  using snapshot_counter_delta
    [of "''srv1''" "''10.0.0.1''" "\<lambda>a. None" srv1 srv1 50 "[(''query'', 30), (''insert'', 20)]"
        "[50, 70, 70, 95]" "[[(''query'', 30), (''insert'', 20)], [(''query'', 70)]]"]
  by (simp add: Server_init_def srv1_def getFlushCountChange_def getOperationCountChange_def)

subsection \<open>ListPrinter.reset: sorting and truncation\<close>

lemma mset_py_sorted: "mset (py_sorted f r xs) = mset xs"
  by (simp add: py_sorted_def)

lemma length_py_sorted: "length (py_sorted f r xs) = length xs"
  by (simp add: py_sorted_def)

lemma py_sorted_ordered:
  "sorted_wrt (\<lambda>a b. if r then f b \<le> f a else f a \<le> f b) (py_sorted f r xs)"
proof (cases r)
  case True
  have "sorted (map f (sort_key f (rev xs)))" by (rule sorted_sort_key)
  then have "sorted_wrt (\<lambda>a b. f a \<le> f b) (sort_key f (rev xs))" by (simp add: sorted_map)
  then have "sorted_wrt (\<lambda>a b. f b \<le> f a) (rev (sort_key f (rev xs)))"
    by (simp add: sorted_wrt_rev)
  with True show ?thesis by (simp add: py_sorted_def)
next
  case False
  have "sorted (map f (sort_key f xs))" by (rule sorted_sort_key)
  then have "sorted_wrt (\<lambda>a b. f a \<le> f b) (sort_key f xs)" by (simp add: sorted_map)
  with False show ?thesis by (simp add: py_sorted_def)
qed

lemma py_slice_to_take: "\<exists>k. py_slice_to xs m = take k xs"
  by (auto simp: py_slice_to_def)

lemma sorted_wrt_take_any: "sorted_wrt R xs \<Longrightarrow> sorted_wrt R (take k xs)"
proof -
  assume "sorted_wrt R xs"
  then have "sorted_wrt R (take k xs @ drop k xs)" by simp
  then show ?thesis unfolding sorted_wrt_append by blast
qed

lemma take_above_drop:
  assumes "sorted_wrt R xs" and "x \<in> set (take k xs)" and "y \<in> set (drop k xs)"
  shows "R x y"
proof -
  from assms(1) have "sorted_wrt R (take k xs @ drop k xs)" by simp
  with assms(2,3) show ?thesis unfolding sorted_wrt_append by blast
qed

lemma mset_minus_take: "mset xs - mset (take k xs) = mset (drop k xs)"
proof -
  have "mset xs = mset (take k xs) + mset (drop k xs)"
    by (metis append_take_drop_id mset_append)
  then show ?thesis by simp
qed

lemma reset_printables:
  "printables (snd (reset isP f self ps)) =
     Some (case maxLine self of
             None \<Rightarrow> py_sorted f (descendingOrder self) ps
           | Some m \<Rightarrow> if m \<noteq> 0 then py_slice_to (py_sorted f (descendingOrder self) ps) m
                       else py_sorted f (descendingOrder self) ps)"
  by (simp add: reset_def Let_def)

lemma reset_kept_take:
  "\<exists>k. printables (snd (reset isP f self ps)) = Some (take k (py_sorted f (descendingOrder self) ps))"
proof (cases "maxLine self")
  case None
  then have "printables (snd (reset isP f self ps)) =
             Some (take (length ps) (py_sorted f (descendingOrder self) ps))"
    by (simp add: reset_printables length_py_sorted)
  then show ?thesis ..
next
  case (Some m)
  show ?thesis
  proof (cases "m = 0")
    case True
    with Some have "printables (snd (reset isP f self ps)) =
             Some (take (length ps) (py_sorted f (descendingOrder self) ps))"
      by (simp add: reset_printables length_py_sorted)
    then show ?thesis ..
  next
    case False
    obtain k where "py_slice_to (py_sorted f (descendingOrder self) ps) m =
                    take k (py_sorted f (descendingOrder self) ps)"
      using py_slice_to_take by blast
    with Some False have "printables (snd (reset isP f self ps)) =
             Some (take k (py_sorted f (descendingOrder self) ps))"
      by (simp add: reset_printables)
    then show ?thesis ..
  qed
qed

lemma reset_ordered:
  assumes "printables (snd (reset isP f self ps)) = Some kept"
  shows "sorted_wrt (\<lambda>a b. if descendingOrder self then f b \<le> f a else f a \<le> f b) kept"
proof -
  obtain k where "printables (snd (reset isP f self ps)) =
                  Some (take k (py_sorted f (descendingOrder self) ps))"
    using reset_kept_take by blast
  with assms have "kept = take k (py_sorted f (descendingOrder self) ps)" by simp
  then show ?thesis using py_sorted_ordered sorted_wrt_take_any by blast
qed

text \<open>
  C1, as the claim states it, fails for a maximum of 0: \<open>if self.__maxLine\<close> is false
  for 0 as it is for \<open>None\<close>, so nothing is cut and the table holds one row where the
  maximum is 0.
\<close>

theorem reset_maxLine_0_counterexample:
  "maxLine (ListPrinter_init [''Server'', ''OpId''] True (Some 0) :: operation ListPrinter) = Some 0 \<and>
   printables (snd (reset isPrintable sortOrder
                      (ListPrinter_init [''Server'', ''OpId''] True (Some 0))
                      [Operation srv1 101]))
     = Some [Operation srv1 101] \<and>
   \<not> int (length [Operation srv1 101]) \<le> 0"
  by (simp add: reset_def ListPrinter_init_def py_sorted_def)

text \<open>
  C1 (amended): for every table with a configured positive maximum row count \<open>m\<close> and
  every submitted collection, \<open>reset\<close> sorts the records by their sort key in the
  table's direction and keeps the first \<open>m\<close> of them. The generation holds at most
  \<open>m\<close> records, \<open>min m n\<close> of the \<open>n\<close> submitted; they are submitted records, in
  order of their keys, and every record left out has a key no higher (descending) or
  no lower (ascending) than every record kept. With \<open>m = 30\<close> and 45 submitted
  records, exactly 30 rows remain. (A maximum of 0 is treated as no maximum.)
\<close>

theorem reset_sorts_and_truncates:
  assumes "maxLine self = Some m" and "0 < m"
  shows "\<exists>kept. printables (snd (reset isP f self ps)) = Some kept \<and>
           kept = take (nat m) (py_sorted f (descendingOrder self) ps) \<and>
           int (length kept) \<le> m \<and>
           length kept = min (nat m) (length ps) \<and>
           mset kept \<subseteq># mset ps \<and>
           sorted_wrt (\<lambda>a b. if descendingOrder self then f b \<le> f a else f a \<le> f b) kept \<and>
           (\<forall>x \<in> set kept. \<forall>y \<in># mset ps - mset kept.
              if descendingOrder self then f y \<le> f x else f x \<le> f y) \<and>
           (m = 30 \<and> length ps = 45 \<longrightarrow> length kept = 30)"
proof -
  let ?s = "py_sorted f (descendingOrder self) ps"
  let ?R = "\<lambda>a b. if descendingOrder self then f b \<le> f a else f a \<le> f b"
  define kept where "kept = take (nat m) ?s"
  have p: "printables (snd (reset isP f self ps)) = Some kept"
    using assms by (simp add: reset_printables py_slice_to_def kept_def)
  have len: "length kept = min (nat m) (length ps)"
    by (simp add: kept_def length_py_sorted min.commute)
  have le: "int (length kept) \<le> m" using len assms(2) by simp
  have sub: "mset kept \<subseteq># mset ps"
  proof -
    have "mset kept \<subseteq># mset ?s"
      unfolding kept_def by (metis append_take_drop_id mset_append mset_subset_eq_add_left)
    then show ?thesis by (simp add: mset_py_sorted)
  qed
  have srt: "sorted_wrt ?R kept" using reset_ordered [OF p] .
  have top: "\<forall>x \<in> set kept. \<forall>y \<in># mset ps - mset kept. ?R x y"
  proof (intro ballI)
    fix x y
    assume x: "x \<in> set kept" and y: "y \<in># mset ps - mset kept"
    have "mset ps - mset kept = mset (drop (nat m) ?s)"
      using mset_minus_take [of ?s "nat m"] by (simp add: kept_def mset_py_sorted)
    with y have "y \<in> set (drop (nat m) ?s)" by simp
    with x show "?R x y"
      using take_above_drop [OF py_sorted_ordered, of x "nat m" f "descendingOrder self" ps y]
      by (simp add: kept_def)
  qed
  have ex: "m = 30 \<and> length ps = 45 \<longrightarrow> length kept = 30" using len by simp
  from p len le sub srt top ex kept_def show ?thesis by blast
qed

theorem reset_sorts_and_truncates_witness:
  "maxLine (ListPrinter_init [''Server'', ''OpId''] True (Some 2) :: operation ListPrinter) = Some 2 \<and>
   (0::int) < 2 \<and>
   printables (snd (reset isPrintable sortOrder
                      (ListPrinter_init [''Server'', ''OpId''] True (Some 2))
                      [Query srv1 1 ''a.b'' ''{}'' (Some 5), Query srv1 2 ''a.b'' ''{}'' (Some 9),
                       Query srv2 3 ''a.b'' ''{}'' (Some 7)]))
     = Some [Query srv1 2 ''a.b'' ''{}'' (Some 9), Query srv2 3 ''a.b'' ''{}'' (Some 7)] \<and>
   maxLine Query_listPrinter = Some 30 \<and> (0::int) < 30 \<and> length queries45 = 45 \<and>
   (\<exists>kept. printables (snd (reset isPrintable sortOrder Query_listPrinter queries45)) = Some kept \<and>
           length kept = 30)"
proof -
  have a: "maxLine (ListPrinter_init [''Server'', ''OpId''] True (Some 2) :: operation ListPrinter) = Some 2"
    by (simp add: ListPrinter_init_def)
  have b: "maxLine Query_listPrinter = Some 30"
    by (simp add: Query_listPrinter_def ListPrinter_init_def)
  have l: "length queries45 = 45" by (simp add: queries45_def)
  from reset_sorts_and_truncates [OF b, of isPrintable sortOrder queries45] l
  have c: "\<exists>kept. printables (snd (reset isPrintable sortOrder Query_listPrinter queries45)) = Some kept \<and>
           length kept = 30"
    by auto
  from reset_sorts_and_truncates [OF a, of isPrintable sortOrder
        "[Query srv1 1 ''a.b'' ''{}'' (Some 5), Query srv1 2 ''a.b'' ''{}'' (Some 9),
          Query srv2 3 ''a.b'' ''{}'' (Some 7)]"]
  have d: "printables (snd (reset isPrintable sortOrder
                      (ListPrinter_init [''Server'', ''OpId''] True (Some 2))
                      [Query srv1 1 ''a.b'' ''{}'' (Some 5), Query srv1 2 ''a.b'' ''{}'' (Some 9),
                       Query srv2 3 ''a.b'' ''{}'' (Some 7)]))
     = Some [Query srv1 2 ''a.b'' ''{}'' (Some 9), Query srv2 3 ''a.b'' ''{}'' (Some 7)]"
    by (simp add: ListPrinter_init_def py_sorted_def)
  from a b l c d show ?thesis by simp
qed

subsection \<open>Query.sortOrder\<close>

text \<open>
  C10: the sort key of a \<open>Query\<close> is its duration when that is present and not zero, and
  0 otherwise; a query without a duration, or with duration 0, has key 0. In a table
  that sorts in descending order no such query stands before a query with a positive
  duration.
\<close>

theorem Query_sortOrder_rank:
  "sortOrder (Query server opid ns b duration) =
     (case duration of Some d \<Rightarrow> if d \<noteq> 0 then d else 0 | None \<Rightarrow> 0) \<and>
   sortOrder (Query server opid ns b None) = 0 \<and>
   sortOrder (Query server opid ns b (Some 0)) = 0 \<and>
   (descendingOrder table \<longrightarrow>
    printables (snd (reset isPrintable sortOrder table ps)) = Some kept \<longrightarrow>
    i < j \<longrightarrow> j < length kept \<longrightarrow>
    kept ! j = Query server' opid' ns' b' (Some d') \<longrightarrow> 0 < d' \<longrightarrow>
    kept ! i \<noteq> Query server opid ns b None \<and> kept ! i \<noteq> Query server opid ns b (Some 0))"
proof -
  have "kept ! i \<noteq> Query server opid ns b None \<and> kept ! i \<noteq> Query server opid ns b (Some 0)"
    if desc: "descendingOrder table"
      and p: "printables (snd (reset isPrintable sortOrder table ps)) = Some kept"
      and ij: "i < j" "j < length kept"
      and q: "kept ! j = Query server' opid' ns' b' (Some d')" and d: "0 < d'"
  proof -
    from reset_ordered [OF p] desc
    have "sorted_wrt (\<lambda>a b. sortOrder b \<le> sortOrder a) kept" by simp
    from sorted_wrt_nth_less [OF this ij]
    have "sortOrder (kept ! j) \<le> sortOrder (kept ! i)" by simp
    with q d have "0 < sortOrder (kept ! i)" by simp
    then show ?thesis by auto
  qed
  then show ?thesis by (simp split: option.split)
qed

theorem Query_sortOrder_rank_witness:
  "descendingOrder Query_listPrinter \<and>
   printables (snd (reset isPrintable sortOrder Query_listPrinter
      [Query srv1 7 ''a.b'' ''{}'' None, Query srv2 8 ''a.b'' ''{}'' (Some 12)]))
     = Some [Query srv2 8 ''a.b'' ''{}'' (Some 12), Query srv1 7 ''a.b'' ''{}'' None] \<and>
   (0::nat) < 1 \<and>
   1 < length [Query srv2 8 ''a.b'' ''{}'' (Some 12), Query srv1 7 ''a.b'' ''{}'' None] \<and>
   sortOrder (Query srv1 7 ''a.b'' ''{}'' None) = 0 \<and>
   sortOrder (Query srv2 8 ''a.b'' ''{}'' (Some 12)) = 12"
  using Query_sortOrder_rank [of srv2 8 "''a.b''" "''{}''" "Some 12"]
    Query_sortOrder_rank [of srv1 7 "''a.b''" "''{}''" None]
  by (simp add: Query_listPrinter_def ListPrinter_init_def reset_def py_sorted_def py_slice_to_def
        isPrintable_def)

subsection \<open>ListPrinter.printLines: the column widths\<close>

lemma printCells_Cons_widths:
  "i < length ws \<Longrightarrow>
   fst (snd (printCells ws i (c # cells))) =
   fst (snd (printCells (if length c + 2 > ws ! i then ws[i := length c + 2] else ws) (Suc i) cells))"
  by (simp split: prod.splits)

lemma printCells_length: "length (fst (snd (printCells ws i cells))) = length ws"
proof (induction cells arbitrary: ws i)
  case Nil
  then show ?case by simp
next
  case (Cons c cells)
  show ?case
  proof (cases "i < length ws")
    case True
    then show ?thesis by (simp only: printCells_Cons_widths Cons.IH) simp
  next
    case False
    then show ?thesis by simp
  qed
qed

lemma printCells_nth:
  "k < length ws \<Longrightarrow>
   fst (snd (printCells ws i cells)) ! k =
     (if i \<le> k \<and> k - i < length cells then max (ws ! k) (length (cells ! (k - i)) + 2) else ws ! k)"
proof (induction cells arbitrary: ws i)
  case Nil
  then show ?case by simp
next
  case (Cons c cells)
  show ?case
  proof (cases "i < length ws")
    case False
    with Cons.prems show ?thesis by simp
  next
    case True
    let ?ws = "if length c + 2 > ws ! i then ws[i := length c + 2] else ws"
    have len: "length ?ws = length ws" by simp
    have step: "fst (snd (printCells ws i (c # cells))) = fst (snd (printCells ?ws (Suc i) cells))"
      using True by (rule printCells_Cons_widths)
    from Cons.prems len have k: "k < length ?ws" by simp
    note ih = Cons.IH [OF k, of "Suc i"]
    show ?thesis
    proof (cases "k = i")
      case True
      with ih step \<open>i < length ws\<close> show ?thesis by (auto simp: max_def)
    next
      case False
      then have "?ws ! k = ws ! k" by simp
      moreover have "i \<le> k \<Longrightarrow> (c # cells) ! (k - i) = cells ! (k - Suc i)"
        using False by (simp add: nth_Cons')
      ultimately show ?thesis using ih step False by (auto simp: Suc_le_eq)
    qed
  qed
qed

lemma printCells_mono: "list_all2 (\<le>) ws (fst (snd (printCells ws i cells)))"
  by (simp add: list_all2_conv_all_nth printCells_length printCells_nth)

lemma list_all2_le_trans:
  "list_all2 (\<le>) (xs :: nat list) ys \<Longrightarrow> list_all2 (\<le>) ys zs \<Longrightarrow> list_all2 (\<le>) xs zs"
  using list_all2_trans [of "(\<le>)" "(\<le>)" "(\<le>)" xs ys zs] by auto

lemma printRows_mono: "list_all2 (\<le>) ws (fst (snd (printRows ws rows)))"
proof (induction rows arbitrary: ws)
  case Nil
  then show ?case by (simp add: list_all2_refl)
next
  case (Cons row rows)
  obtain r ws' out where c: "printCells ws 0 row = (r, ws', out)" by (cases "printCells ws 0 row")
  have m: "list_all2 (\<le>) ws ws'" using printCells_mono [of ws 0 row] c by simp
  show ?case
  proof (cases r)
    case (Inl e)
    with c m show ?thesis by simp
  next
    case (Inr u)
    with c have "fst (snd (printRows ws (row # rows))) = fst (snd (printRows ws' rows))"
      by (simp split: prod.splits)
    with m Cons.IH [of ws'] show ?thesis by (simp add: list_all2_le_trans)
  qed
qed

lemma printRows_mono': "printRows ws rows = (r, ws', out) \<Longrightarrow> list_all2 (\<le>) ws ws'"
  using printRows_mono [of ws rows] by simp

lemma printLines_mono:
  "list_all2 (\<le>) (columnWidths self) (columnWidths (fst (snd (printLines lineOf self))))"
proof -
  have r: "list_all2 (\<le>) (columnWidths self) (columnWidths self)" by (simp add: list_all2_refl)
  show ?thesis
    using r by (auto simp: printLines_def split: prod.splits sum.splits option.splits
        dest: printRows_mono')
qed

lemma reset_columnWidths: "columnWidths (snd (reset isP f self ps)) = columnWidths self"
  by (simp add: reset_def Let_def)

lemma run_mono:
  "list_all2 (\<le>) (columnWidths self) (columnWidths (run isP f lineOf self calls))"
proof (induction calls arbitrary: self)
  case Nil
  then show ?case by (simp add: list_all2_refl)
next
  case (Cons c calls)
  show ?case
  proof (cases c)
    case (Reset ps)
    with Cons.IH [of "snd (reset isP f self ps)"] show ?thesis
      by (simp add: reset_columnWidths)
  next
    case PrintLines
    with Cons.IH [of "fst (snd (printLines lineOf self))"] printLines_mono [of self lineOf]
    show ?thesis by (simp add: list_all2_le_trans)
  next
    case (GetLine l)
    with Cons.IH [of self] show ?thesis by simp
  qed
qed



lemma printCells_ok_iff:
  "fst (printCells ws i cells) = Inr () \<longleftrightarrow> cells = [] \<or> i + length cells \<le> length ws"
proof (induction cells arbitrary: ws i)
  case Nil
  then show ?case by simp
next
  case (Cons c cells)
  let ?ws = "if length c + 2 > ws ! i then ws[i := length c + 2] else ws"
  show ?case
  proof (cases "i < length ws")
    case True
    then have "fst (printCells ws i (c # cells)) = fst (printCells ?ws (Suc i) cells)"
      by (simp split: prod.splits)
    with Cons.IH [of ?ws "Suc i"] True show ?thesis by auto
  next
    case False
    then show ?thesis by simp
  qed
qed

lemma printCells_fitting:
  "i + length cells \<le> length ws \<Longrightarrow>
   (\<forall>k < length cells. length (cells ! k) + 2 \<le> ws ! (i + k)) \<Longrightarrow>
   printCells ws i cells = (Inr (), ws, concat (map2 ljust cells (drop i ws)))"
proof (induction cells arbitrary: i)
  case Nil
  then show ?case by simp
next
  case (Cons c cells)
  from Cons.prems(1) have i: "i < length ws" and le: "Suc i + length cells \<le> length ws" by simp_all
  from Cons.prems(2) have c: "length c + 2 \<le> ws ! i" by fastforce
  have rest: "\<forall>k < length cells. length (cells ! k) + 2 \<le> ws ! (Suc i + k)"
    using Cons.prems(2) by fastforce
  have d: "drop i ws = ws ! i # drop (Suc i) ws" using i by (simp add: Cons_nth_drop_Suc)
  from Cons.IH [OF le rest] i c d show ?case by simp
qed

lemma printHeaders_fitting:
  "i + length hs \<le> length ws \<Longrightarrow>
   printHeaders ws i hs = (Inr (), concat (map2 ljust hs (drop i ws)))"
proof (induction hs arbitrary: i)
  case Nil
  then show ?case by simp
next
  case (Cons h hs)
  from Cons.prems have i: "i < length ws" and le: "Suc i + length hs \<le> length ws" by simp_all
  have d: "drop i ws = ws ! i # drop (Suc i) ws" using i by (simp add: Cons_nth_drop_Suc)
  from Cons.IH [OF le] i d show ?case by simp
qed

lemma printHeaders_ok_iff:
  "fst (printHeaders ws i hs) = Inr () \<longleftrightarrow> hs = [] \<or> i + length hs \<le> length ws"
proof (induction hs arbitrary: i)
  case Nil
  then show ?case by simp
next
  case (Cons h hs)
  show ?case
  proof (cases "i < length ws")
    case True
    then have "fst (printHeaders ws i (h # hs)) = fst (printHeaders ws (Suc i) hs)"
      by (simp split: prod.splits)
    with Cons.IH [of "Suc i"] True show ?thesis by auto
  next
    case False
    then show ?thesis by simp
  qed
qed

lemma printRows_fitting:
  "(\<forall>row \<in> set rows. length row \<le> length ws \<and> (\<forall>k < length row. length (row ! k) + 2 \<le> ws ! k)) \<Longrightarrow>
   printRows ws rows = (Inr (), ws, concat (map (\<lambda>row. justified ws row @ [CHR 0x0A]) rows))"
proof (induction rows)
  case Nil
  then show ?case by simp
next
  case (Cons row rows)
  from Cons.prems have l: "0 + length row \<le> length ws"
    and f: "\<forall>k < length row. length (row ! k) + 2 \<le> ws ! (0 + k)" by simp_all
  have "printCells ws 0 row = (Inr (), ws, justified ws row)"
    using printCells_fitting [OF l f] by (simp add: justified_def)
  moreover have "printRows ws rows =
      (Inr (), ws, concat (map (\<lambda>row. justified ws row @ [CHR 0x0A]) rows))"
    using Cons by simp
  ultimately show ?case by simp
qed

lemma printRows_fits:
  "printRows ws rows = (Inr (), ws', out) \<Longrightarrow> row \<in> set rows \<Longrightarrow>
   length row \<le> length ws' \<and> (\<forall>k < length row. length (row ! k) + 2 \<le> ws' ! k)"
proof (induction rows arbitrary: ws out)
  case Nil
  then show ?case by simp
next
  case (Cons r rows)
  obtain res ws1 out1 where c: "printCells ws 0 r = (res, ws1, out1)"
    by (cases "printCells ws 0 r")
  obtain res2 ws2 out2 where p: "printRows ws1 rows = (res2, ws2, out2)"
    by (cases "printRows ws1 rows")
  from Cons.prems(1) c have res: "res = Inr ()" by (cases res) auto
  with Cons.prems(1) c p have eq: "res2 = Inr ()" "ws2 = ws'" by auto
  have len1: "length ws1 = length ws" using printCells_length [of ws 0 r] c by simp
  have m: "list_all2 (\<le>) ws1 ws'" using printRows_mono' p eq by blast
  then have len2: "length ws' = length ws1" by (simp add: list_all2_lengthD)
  show ?case
  proof (cases "row = r")
    case True
    from res c have ok: "length r \<le> length ws" using printCells_ok_iff [of ws 0 r] by auto
    have "length (r ! k) + 2 \<le> ws' ! k" if k: "k < length r" for k
    proof -
      from k ok have kw: "k < length ws" by simp
      from printCells_nth [OF kw, of 0 r] c k
      have "ws1 ! k = max (ws ! k) (length (r ! k) + 2)" by simp
      moreover from m kw len1 have "ws1 ! k \<le> ws' ! k" by (simp add: list_all2_conv_all_nth)
      ultimately show ?thesis by simp
    qed
    with True ok len1 len2 show ?thesis by simp
  next
    case False
    with Cons.prems(2) have "row \<in> set rows" by simp
    from Cons.IH [OF _ this, of ws1 out2] p eq show ?thesis by simp
  qed
qed

lemma printLines_again:
  assumes "printLines lineOf self = (Inr (), self', out)"
  shows "\<exists>ps. printables self = Some ps \<and> printables self' = Some ps \<and>
          columnHeaders self' = columnHeaders self \<and>
          (\<forall>p \<in> set ps. \<forall>k < length (lineOf p). length (lineOf p ! k) + 2 \<le> columnWidths self' ! k) \<and>
          printLines lineOf self' =
            (Inr (), self',
             justified (columnWidths self') (columnHeaders self') @ [CHR 0x0A] @
             concat (map (\<lambda>p. justified (columnWidths self') (lineOf p) @ [CHR 0x0A]) ps))"
proof -
  obtain rh outh where h: "printHeaders (columnWidths self) 0 (columnHeaders self) = (rh, outh)"
    by (cases "printHeaders (columnWidths self) 0 (columnHeaders self)")
  from assms h have rh: "rh = Inr ()" by (cases rh) (auto simp: printLines_def)
  from assms h rh obtain ps where ps: "printables self = Some ps"
    by (cases "printables self") (auto simp: printLines_def)
  obtain r ws out' where rows: "printRows (columnWidths self) (map lineOf ps) = (r, ws, out')"
    by (cases "printRows (columnWidths self) (map lineOf ps)")
  from assms h rh ps rows have r: "r = Inr ()" and s': "self' = self\<lparr>columnWidths := ws\<rparr>"
    by (auto simp: printLines_def)
  have hl: "length (columnHeaders self) \<le> length (columnWidths self)"
    using printHeaders_ok_iff [of "columnWidths self" 0 "columnHeaders self"] h rh by auto
  have m: "list_all2 (\<le>) (columnWidths self) ws" using printRows_mono' rows by blast
  then have lw: "length ws = length (columnWidths self)" by (simp add: list_all2_lengthD)
  have fits: "length row \<le> length ws \<and> (\<forall>k < length row. length (row ! k) + 2 \<le> ws ! k)"
    if "row \<in> set (map lineOf ps)" for row
    using printRows_fits [of "columnWidths self" "map lineOf ps" ws out' row] rows r that by simp
  have h2: "printHeaders ws 0 (columnHeaders self) = (Inr (), justified ws (columnHeaders self))"
    using printHeaders_fitting [of 0 "columnHeaders self" ws] hl lw by (simp add: justified_def)
  have r2: "printRows ws (map lineOf ps) =
      (Inr (), ws, concat (map (\<lambda>row. justified ws row @ [CHR 0x0A]) (map lineOf ps)))"
    using fits by (intro printRows_fitting) blast
  have again: "printLines lineOf self' =
            (Inr (), self',
             justified (columnWidths self') (columnHeaders self') @ [CHR 0x0A] @
             concat (map (\<lambda>p. justified (columnWidths self') (lineOf p) @ [CHR 0x0A]) ps))"
    using h2 r2 ps by (simp add: printLines_def s' comp_def)
  have f2: "\<forall>p \<in> set ps. \<forall>k < length (lineOf p). length (lineOf p ! k) + 2 \<le> columnWidths self' ! k"
    using fits s' by simp
  from ps s' f2 again show ?thesis by simp
qed

text \<open>
  C5: every column width of a table starts at the length of the column's header plus 2
  and never shrinks: \<open>reset\<close> leaves the widths alone, a print leaves each at least as
  wide, and so does any sequence of calls in the table's life. Printing a cell sets
  the width of its column to the larger of the width and the cell's length plus 2, so
  a cell wider than its column grows the width to the cell's length plus the padding
  of 2. After a print that succeeded every cell of the generation fits its column,
  and the next print of that generation keeps the widths and justifies the headers
  and every cell to them.
\<close>

theorem columnWidths_ratchet:
  "columnWidths (ListPrinter_init hs desc mx :: 'p ListPrinter) = map (\<lambda>h. length h + 2) hs \<and>
   columnWidths (snd (reset isP f (self :: 'p ListPrinter) ps)) = columnWidths self \<and>
   list_all2 (\<le>) (columnWidths self) (columnWidths (fst (snd (printLines lineOf self)))) \<and>
   list_all2 (\<le>) (columnWidths self) (columnWidths (run isP f lineOf self calls)) \<and>
   list_all2 (\<le>) (map (\<lambda>h. length h + 2) hs)
     (columnWidths (run isP f lineOf (ListPrinter_init hs desc mx) calls)) \<and>
   (k < length ws \<longrightarrow> k < length row \<longrightarrow>
      fst (snd (printCells ws 0 row)) ! k = max (ws ! k) (length (row ! k) + 2)) \<and>
   (k < length ws \<longrightarrow> k < length row \<longrightarrow> ws ! k < length (row ! k) \<longrightarrow>
      fst (snd (printCells ws 0 row)) ! k = length (row ! k) + 2) \<and>
   (printLines lineOf self = (Inr (), self', out) \<longrightarrow>
      (\<exists>rows. printables self = Some rows \<and> printables self' = Some rows \<and>
         (\<forall>p \<in> set rows. \<forall>k < length (lineOf p).
            length (lineOf p ! k) + 2 \<le> columnWidths self' ! k) \<and>
         printLines lineOf self' =
           (Inr (), self',
            justified (columnWidths self') (columnHeaders self') @ [CHR 0x0A] @
            concat (map (\<lambda>p. justified (columnWidths self') (lineOf p) @ [CHR 0x0A]) rows))))"
proof -
  have a: "columnWidths (ListPrinter_init hs desc mx :: 'p ListPrinter) = map (\<lambda>h. length h + 2) hs"
    by (simp add: ListPrinter_init_def)
  have b: "list_all2 (\<le>) (map (\<lambda>h. length h + 2) hs)
     (columnWidths (run isP f lineOf (ListPrinter_init hs desc mx) calls))"
    using run_mono [of "ListPrinter_init hs desc mx" isP f lineOf calls] by (simp add: ListPrinter_init_def)
  have c: "k < length ws \<longrightarrow> k < length row \<longrightarrow>
      fst (snd (printCells ws 0 row)) ! k = max (ws ! k) (length (row ! k) + 2)"
    by (simp add: printCells_nth)
  have d: "k < length ws \<longrightarrow> k < length row \<longrightarrow> ws ! k < length (row ! k) \<longrightarrow>
      fst (snd (printCells ws 0 row)) ! k = length (row ! k) + 2"
    by (simp add: printCells_nth)
  have e: "printLines lineOf self = (Inr (), self', out) \<longrightarrow>
      (\<exists>rows. printables self = Some rows \<and> printables self' = Some rows \<and>
         (\<forall>p \<in> set rows. \<forall>k < length (lineOf p).
            length (lineOf p ! k) + 2 \<le> columnWidths self' ! k) \<and>
         printLines lineOf self' =
           (Inr (), self',
            justified (columnWidths self') (columnHeaders self') @ [CHR 0x0A] @
            concat (map (\<lambda>p. justified (columnWidths self') (lineOf p) @ [CHR 0x0A]) rows)))"
    using printLines_again [of lineOf self self' out] by blast
  from a b c d e reset_columnWidths [of isP f self ps] printLines_mono [of self lineOf]
    run_mono [of self isP f lineOf calls]
  show ?thesis by blast
qed

theorem columnWidths_ratchet_witness:
  "columnWidths opsTable = [8, 6, 11, 5, 7] \<and>
   fst (printLines line opsTable) = Inr () \<and>
   columnWidths (fst (snd (printLines line opsTable))) = [8, 6, 18, 5, 7] \<and>
   list_all2 (\<le>) (columnWidths opsTable) (columnWidths (fst (snd (printLines line opsTable)))) \<and>
   (2::nat) < length [8, 6, 11, 5, 7 :: nat] \<and>
   2 < length (line (Query srv1 101 ''inventory.orders'' ''{}'' (Some 3))) \<and>
   [8, 6, 11, 5, 7] ! 2 < length (line (Query srv1 101 ''inventory.orders'' ''{}'' (Some 3)) ! 2) \<and>
   fst (snd (printCells [8, 6, 11, 5, 7] 0 (line (Query srv1 101 ''inventory.orders'' ''{}'' (Some 3))))) ! 2
     = 18 \<and>
   fst (snd (printLines line (fst (snd (printLines line opsTable))))) =
     fst (snd (printLines line opsTable)) \<and>
   snd (snd (printLines line (fst (snd (printLines line opsTable))))) =
     ''Server  OpId  Namespace         Sec  Query  '' @ [CHR 0x0A] @
     ''srv1    101   inventory.orders  3    {}     '' @ [CHR 0x0A] @
     ''srv2    202   '' @ [CHR 0x0A]"
proof -
  let ?q = "Query srv1 101 ''inventory.orders'' ''{}'' (Some 3)"
  let ?t = "fst (snd (printLines line opsTable))"
  have w0: "columnWidths opsTable = [8, 6, 11, 5, 7]" by code_simp
  have ok: "fst (printLines line opsTable) = Inr ()" by code_simp
  have w1: "columnWidths ?t = [8, 6, 18, 5, 7]" by code_simp
  have l: "line ?q = [''srv1'', ''101'', ''inventory.orders'', ''3'', ''{}'']" by code_simp
  have out: "snd (snd (printLines line ?t)) =
     ''Server  OpId  Namespace         Sec  Query  '' @ [CHR 0x0A] @
     ''srv1    101   inventory.orders  3    {}     '' @ [CHR 0x0A] @
     ''srv2    202   '' @ [CHR 0x0A]"
    by code_simp
  have p: "printLines line opsTable = (Inr (), ?t, snd (snd (printLines line opsTable)))"
    using ok by (metis prod.collapse)
  note th = columnWidths_ratchet [where lineOf = line and self = opsTable and self' = ?t
      and out = "snd (snd (printLines line opsTable))" and k = 2 and ws = "[8, 6, 11, 5, 7]"
      and row = "line ?q"]
  from th l have g: "fst (snd (printCells [8, 6, 11, 5, 7] 0 (line ?q))) ! 2 = 18" by simp
  from th have m: "list_all2 (\<le>) (columnWidths opsTable) (columnWidths ?t)" by blast
  from th p obtain rows where "printLines line ?t =
      (Inr (), ?t,
       justified (columnWidths ?t) (columnHeaders ?t) @ [CHR 0x0A] @
       concat (map (\<lambda>p. justified (columnWidths ?t) (line p) @ [CHR 0x0A]) rows))"
    by blast
  then have again: "fst (snd (printLines line ?t)) = ?t" by simp
  from w0 ok w1 m g out l again show ?thesis by simp
qed

subsection \<open>ListPrinter.getLine\<close>

lemma compareCells_eq:
  "compareCells pl l =
     (if take (length pl) l = take (length l) pl
      then (if length l \<le> length pl then Inr True else Inl IndexError)
      else Inr False)"
  by (induction pl l rule: compareCells.induct) auto

lemma scanLines_find:
  "scanLines lineOf ps l =
     (case List.find (\<lambda>p. take (length (lineOf p)) l = take (length l) (lineOf p)) ps of
        None \<Rightarrow> Inr None
      | Some p \<Rightarrow> if length l \<le> length (lineOf p) then Inr (Some p) else Inl IndexError)"
  by (induction ps) (simp_all add: compareCells_eq)

lemma scanLines_find_prefix:
  "(\<forall>p \<in> set ps. length l \<le> length (lineOf p)) \<Longrightarrow>
   scanLines lineOf ps l = Inr (List.find (\<lambda>p. take (length l) (lineOf p) = l) ps)"
  by (induction ps) (auto simp: compareCells_eq)

text \<open>
  C3, as the claim states it, fails when the argument has more cells than a record that
  agrees with it on all of its own cells: an \<open>Operation\<close> renders two cells, and with a
  third cell in the argument \<open>printableLine [index]\<close> raises \<open>IndexError\<close> where the
  claim has "not found".
\<close>

theorem getLine_IndexError_counterexample:
  "printables opsTable =
     Some [Query srv1 101 ''inventory.orders'' ''{}'' (Some 3), Operation srv2 202] \<and>
   line (Query srv1 101 ''inventory.orders'' ''{}'' (Some 3)) =
     [''srv1'', ''101'', ''inventory.orders'', ''3'', ''{}''] \<and>
   line (Operation srv2 202) = [''srv2'', ''202''] \<and>
   getLine line opsTable [''srv2'', ''202'', ''inventory.orders''] = Inl IndexError \<and>
   getLine line opsTable [''srv2'', ''202'', ''inventory.orders''] \<noteq> Inr None"
  by code_simp

text \<open>
  C3 (amended): \<open>getLine\<close> scans the current generation in its order. When no record
  renders fewer cells than the argument supplies, it returns the first record whose
  rendered cells equal the argument at every supplied position, and \<open>None\<close> when no
  record matches. In general the scan stops at the first record that agrees with the
  argument on every position both have: that record is returned when it has a cell
  for every supplied position, and otherwise the scan raises \<open>IndexError\<close>. With
  records rendering \<open>srv1, 101, ...\<close> and \<open>srv2, 202\<close>, the argument \<open>srv1, 101\<close> finds
  the first record and \<open>srv3, 1\<close> finds none.
\<close>

theorem getLine_first_match:
  "getLine lineOf (self\<lparr>printables := Some ps\<rparr>) l =
     (case List.find (\<lambda>p. take (length (lineOf p)) l = take (length l) (lineOf p)) ps of
        None \<Rightarrow> Inr None
      | Some p \<Rightarrow> if length l \<le> length (lineOf p) then Inr (Some p) else Inl IndexError) \<and>
   ((\<forall>p \<in> set ps. length l \<le> length (lineOf p)) \<longrightarrow>
      getLine lineOf (self\<lparr>printables := Some ps\<rparr>) l =
        Inr (List.find (\<lambda>p. take (length l) (lineOf p) = l) ps)) \<and>
   getLine line opsTable [''srv1'', ''101''] =
     Inr (Some (Query srv1 101 ''inventory.orders'' ''{}'' (Some 3))) \<and>
   getLine line opsTable [''srv3'', ''1''] = Inr None"
proof -
  have a: "getLine line opsTable [''srv1'', ''101''] =
     Inr (Some (Query srv1 101 ''inventory.orders'' ''{}'' (Some 3)))"
    by code_simp
  have b: "getLine line opsTable [''srv3'', ''1''] = Inr None"
    by code_simp
  have c: "(\<forall>p \<in> set ps. length l \<le> length (lineOf p)) \<longrightarrow>
      getLine lineOf (self\<lparr>printables := Some ps\<rparr>) l =
        Inr (List.find (\<lambda>p. take (length l) (lineOf p) = l) ps)"
    by (simp add: getLine_def scanLines_find_prefix)
  have d: "getLine lineOf (self\<lparr>printables := Some ps\<rparr>) l =
     (case List.find (\<lambda>p. take (length (lineOf p)) l = take (length l) (lineOf p)) ps of
        None \<Rightarrow> Inr None
      | Some p \<Rightarrow> if length l \<le> length (lineOf p) then Inr (Some p) else Inl IndexError)"
    by (simp add: getLine_def scanLines_find)
  from a b c d show ?thesis by blast
qed

theorem getLine_first_match_witness:
  "opsTable\<lparr>printables := Some [Query srv1 101 ''inventory.orders'' ''{}'' (Some 3), Operation srv2 202]\<rparr>
     = opsTable \<and>
   length [''srv2'', ''202''] \<le> length (line (Query srv1 101 ''inventory.orders'' ''{}'' (Some 3))) \<and>
   length [''srv2'', ''202''] \<le> length (line (Operation srv2 202)) \<and>
   List.find (\<lambda>p. take (length [''srv2'', ''202'']) (line p) = [''srv2'', ''202''])
     [Query srv1 101 ''inventory.orders'' ''{}'' (Some 3), Operation srv2 202]
     = Some (Operation srv2 202) \<and>
   getLine line opsTable [''srv2'', ''202''] = Inr (Some (Operation srv2 202))"
proof -
  let ?ps = "[Query srv1 101 ''inventory.orders'' ''{}'' (Some 3), Operation srv2 202]"
  have t: "opsTable\<lparr>printables := Some ?ps\<rparr> = opsTable" by code_simp
  have l1: "length [''srv2'', ''202''] \<le> length (line (Query srv1 101 ''inventory.orders'' ''{}'' (Some 3)))"
    by simp
  have l2: "length [''srv2'', ''202''] \<le> length (line (Operation srv2 202))" by simp
  have f: "List.find (\<lambda>p. take (length [''srv2'', ''202'']) (line p) = [''srv2'', ''202'']) ?ps
     = Some (Operation srv2 202)"
    by code_simp
  from getLine_first_match [where lineOf = line and self = opsTable and ps = ?ps
      and l = "[''srv2'', ''202'']"] l1 l2
  have "getLine line (opsTable\<lparr>printables := Some ?ps\<rparr>) [''srv2'', ''202''] =
        Inr (List.find (\<lambda>p. take (length [''srv2'', ''202'']) (line p) = [''srv2'', ''202'']) ?ps)"
    by simp
  with t f have g: "getLine line opsTable [''srv2'', ''202''] = Inr (Some (Operation srv2 202))"
    by simp
  from t l1 l2 f g show ?thesis by blast
qed

subsection \<open>Operation.line and the arity of the rows\<close>

text \<open>
  C7, as the claim states it, fails: \<open>reset\<close> takes a generic \<open>Operation\<close>, which renders
  two cells, into the operations table of five headers without an error.
\<close>

theorem reset_accepts_short_row_counterexample:
  "reset isPrintable sortOrder Query_listPrinter [Operation srv2 202] =
     (Inr (), Query_listPrinter\<lparr>printables := Some [Operation srv2 202]\<rparr>) \<and>
   length (line (Operation srv2 202)) = 2 \<and>
   length (columnHeaders Query_listPrinter) = 5 \<and>
   length (line (Operation srv2 202)) \<noteq> length (columnHeaders Query_listPrinter)"
  by (simp add: reset_def Query_listPrinter_def ListPrinter_init_def py_sorted_def py_slice_to_def
      isPrintable_def)

text \<open>
  C7 (amended): \<open>reset\<close> checks no cell count. It stores the sorted, truncated records
  and fails only with an assertion error, when a stored record is not a \<open>Printable\<close>;
  on operations it never fails. A \<open>Query\<close> renders five cells, as many as the
  operations table has headers, and a generic \<open>Operation\<close> renders two, so the records
  held in that table do not all render as many cells as it has headers.
\<close>

theorem reset_asserts_class_only:
  "(\<exists>kept. printables (snd (reset isP f self ps)) = Some kept \<and>
      fst (reset isP f self ps) = (if list_all isP kept then Inr () else Inl AssertionError)) \<and>
   fst (reset isPrintable sortOrder table ops) = Inr () \<and>
   length (line (Query server opid ns b duration)) = 5 \<and>
   length (line (Operation server opid)) = 2 \<and>
   length (columnHeaders Query_listPrinter) = 5"
proof -
  have "list_all isPrintable xs" for xs
    by (simp add: list_all_iff isPrintable_def)
  then show ?thesis
    by (simp add: reset_def Let_def Query_listPrinter_def ListPrinter_init_def)
qed

theorem reset_asserts_class_only_witness:
  "printables (snd (reset (\<lambda>p. p \<noteq> Operation srv2 202) sortOrder Query_listPrinter
                      [Operation srv2 202, Operation srv1 101]))
     = Some [Operation srv1 101, Operation srv2 202] \<and>
   fst (reset (\<lambda>p. p \<noteq> Operation srv2 202) sortOrder Query_listPrinter
          [Operation srv2 202, Operation srv1 101]) = Inl AssertionError \<and>
   fst (reset isPrintable sortOrder Query_listPrinter [Operation srv2 202, Operation srv1 101])
     = Inr ()"
proof -
  have p: "printables (snd (reset (\<lambda>p. p \<noteq> Operation srv2 202) sortOrder Query_listPrinter
                      [Operation srv2 202, Operation srv1 101]))
     = Some [Operation srv1 101, Operation srv2 202]"
    by (simp add: reset_def Query_listPrinter_def ListPrinter_init_def py_sorted_def py_slice_to_def)
  note th = reset_asserts_class_only [where isP = "\<lambda>p. p \<noteq> Operation srv2 202" and f = sortOrder
      and self = Query_listPrinter and ps = "[Operation srv2 202, Operation srv1 101]"
      and table = Query_listPrinter and ops = "[Operation srv2 202, Operation srv1 101]"]
  from th p have a: "fst (reset (\<lambda>p. p \<noteq> Operation srv2 202) sortOrder Query_listPrinter
          [Operation srv2 202, Operation srv1 101]) = Inl AssertionError"
    by auto
  from th have b: "fst (reset isPrintable sortOrder Query_listPrinter
          [Operation srv2 202, Operation srv1 101]) = Inr ()"
    by blast
  from p a b show ?thesis by blast
qed

subsection \<open>Server.currentOperations\<close>

lemma yieldOperations_nth:
  "length ops = length rs \<Longrightarrow>
   (\<forall>i < length rs. yieldOperation self (rs ! i) = Inr (ops ! i)) \<Longrightarrow>
   yieldOperations self rs = Inr ops"
proof (induction rs arbitrary: ops)
  case Nil
  then show ?case by simp
next
  case (Cons r rs)
  from Cons.prems(1) obtain x xs where ops: "ops = x # xs" and len: "length xs = length rs"
    by (cases ops) auto
  from Cons.prems(2) ops have h: "yieldOperation self r = Inr x" by fastforce
  from Cons.prems(2) ops have "\<forall>i < length rs. yieldOperation self (rs ! i) = Inr (xs ! i)"
    by fastforce
  with Cons.IH [OF len] have "yieldOperations self rs = Inr xs" by simp
  with h ops show ?case by simp
qed

text \<open>
  C6: a record of kind \<open>query\<close> with the key \<open>secs_running\<close> yields a \<open>Query\<close> carrying that
  duration; a record of kind \<open>query\<close> without the key yields a \<open>Query\<close> with no duration;
  a record of any other kind yields a generic \<open>Operation\<close>. The records are those of a
  server's reply: they carry the keys the code reads (\<open>op\<close> and \<open>opid\<close>, and \<open>ns\<close> and
  \<open>query\<close> for a query). The listing of a reply is the list of what its records yield,
  in order.
\<close>

theorem currentOperations_classification:
  "(inprog_op r = Some ''query'' \<longrightarrow> inprog_opid r = Some opid \<longrightarrow> inprog_ns r = Some ns \<longrightarrow>
    inprog_query r = Some q \<longrightarrow> inprog_secs_running r = Some secs \<longrightarrow>
      yieldOperation self r = Inr (Query self opid ns q (Some secs))) \<and>
   (inprog_op r = Some ''query'' \<longrightarrow> inprog_opid r = Some opid \<longrightarrow> inprog_ns r = Some ns \<longrightarrow>
    inprog_query r = Some q \<longrightarrow> inprog_secs_running r = None \<longrightarrow>
      yieldOperation self r = Inr (Query self opid ns q None)) \<and>
   (inprog_op r = Some kind \<longrightarrow> kind \<noteq> ''query'' \<longrightarrow> inprog_opid r = Some opid \<longrightarrow>
      yieldOperation self r = Inr (Operation self opid)) \<and>
   (length ops = length rs \<longrightarrow>
    (\<forall>i < length rs. yieldOperation self (rs ! i) = Inr (ops ! i)) \<longrightarrow>
      currentOperations self (Inr rs) = Inr ops)"
proof -
  have "length ops = length rs \<longrightarrow>
    (\<forall>i < length rs. yieldOperation self (rs ! i) = Inr (ops ! i)) \<longrightarrow>
      currentOperations self (Inr rs) = Inr ops"
    by (simp add: currentOperations_def yieldOperations_nth)
  then show ?thesis by (simp add: yieldOperation_def getitem_def)
qed

theorem currentOperations_classification_witness:
  "inprog_op queryRecord = Some ''query'' \<and> inprog_opid queryRecord = Some 101 \<and>
   inprog_ns queryRecord = Some ''inventory.orders'' \<and> inprog_query queryRecord = Some ''{}'' \<and>
   inprog_secs_running queryRecord = Some 3 \<and>
   yieldOperation srv1 queryRecord = Inr (Query srv1 101 ''inventory.orders'' ''{}'' (Some 3)) \<and>
   inprog_op idleQueryRecord = Some ''query'' \<and> inprog_opid idleQueryRecord = Some 102 \<and>
   inprog_ns idleQueryRecord = Some ''inventory.orders'' \<and>
   inprog_query idleQueryRecord = Some ''{}'' \<and> inprog_secs_running idleQueryRecord = None \<and>
   yieldOperation srv1 idleQueryRecord = Inr (Query srv1 102 ''inventory.orders'' ''{}'' None) \<and>
   inprog_op insertRecord = Some ''insert'' \<and> ''insert'' \<noteq> ''query'' \<and>
   inprog_opid insertRecord = Some 202 \<and>
   yieldOperation srv1 insertRecord = Inr (Operation srv1 202) \<and>
   currentOperations srv1 (Inr [queryRecord, idleQueryRecord, insertRecord]) =
     Inr [Query srv1 101 ''inventory.orders'' ''{}'' (Some 3),
          Query srv1 102 ''inventory.orders'' ''{}'' None, Operation srv1 202]"
proof -
  let ?ops = "[Query srv1 101 ''inventory.orders'' ''{}'' (Some 3),
          Query srv1 102 ''inventory.orders'' ''{}'' None, Operation srv1 202]"
  let ?rs = "[queryRecord, idleQueryRecord, insertRecord]"
  have a: "yieldOperation srv1 queryRecord = Inr (Query srv1 101 ''inventory.orders'' ''{}'' (Some 3))"
    using currentOperations_classification [where r = queryRecord and opid = 101
        and ns = "''inventory.orders''" and q = "''{}''" and secs = 3 and self = srv1]
    by (simp add: queryRecord_def)
  have b: "yieldOperation srv1 idleQueryRecord = Inr (Query srv1 102 ''inventory.orders'' ''{}'' None)"
    using currentOperations_classification [where r = idleQueryRecord and opid = 102
        and ns = "''inventory.orders''" and q = "''{}''" and self = srv1]
    by (simp add: idleQueryRecord_def)
  have c: "yieldOperation srv1 insertRecord = Inr (Operation srv1 202)"
    using currentOperations_classification [where r = insertRecord and opid = 202
        and kind = "''insert''" and self = srv1]
    by (simp add: insertRecord_def)
  have "\<forall>i < length ?rs. yieldOperation srv1 (?rs ! i) = Inr (?ops ! i)"
    using a b c by (simp add: nth_Cons' less_Suc_eq)
  with currentOperations_classification [where self = srv1 and rs = ?rs and ops = ?ops]
  have d: "currentOperations srv1 (Inr ?rs) = Inr ?ops" by simp
  from a b c d show ?thesis
    by (simp add: queryRecord_def idleQueryRecord_def insertRecord_def)
qed

subsection \<open>The listing over all servers\<close>

lemma main_operations_find:
  "main_operations servers =
     (case List.find (\<lambda>(s, c). isl (currentOperations s c)) servers of
        Some (s, c) \<Rightarrow> Inl (projl (currentOperations s c))
      | None \<Rightarrow> Inr (concat (map (\<lambda>(s, c). projr (currentOperations s c)) servers)))"
proof (induction servers)
  case Nil
  then show ?case by simp
next
  case (Cons sc servers)
  obtain s c where sc: "sc = (s, c)" by (cases sc)
  show ?case
  proof (cases "currentOperations s c")
    case (Inl e)
    with sc show ?thesis by simp
  next
    case (Inr ops)
    with sc Cons.IH show ?thesis
      by (simp split: option.splits prod.splits)
  qed
qed

text \<open>
  C8, as the claim states it, fails: when the remote call of \<open>srv1\<close> raises, the listing
  over \<open>srv1\<close> and \<open>srv2\<close> raises too, the operation of \<open>srv2\<close> is not collected and the
  table is not reset.
\<close>

theorem main_operations_failure_counterexample:
  "currentOperations srv1 (Inl ConnectionFailure) = Inl ConnectionFailure \<and>
   currentOperations srv2 (Inr [insertRecord]) = Inr [Operation srv2 202] \<and>
   main_operations [(srv1, Inl ConnectionFailure), (srv2, Inr [insertRecord])] = Inl ConnectionFailure \<and>
   main_operations [(srv1, Inl ConnectionFailure), (srv2, Inr [insertRecord])]
     \<noteq> Inr ([] @ [Operation srv2 202]) \<and>
   main_reset opsTable [(srv1, Inl ConnectionFailure), (srv2, Inr [insertRecord])]
     = (Inl ConnectionFailure, opsTable)"
  by (simp add: currentOperations_def yieldOperation_def getitem_def insertRecord_def main_reset_def)

text \<open>
  C8 (amended): the listing of a tick over the monitored servers is all or nothing.
  When the call of some server fails, the whole listing fails with the error of the
  first such server, in the order of the servers, and the operations table is left as
  it was; when no call fails, the listing is the operations of the servers one after
  the other, and the table is reset to them.
\<close>

theorem main_operations_all_or_nothing:
  "main_operations servers =
     (case List.find (\<lambda>(s, c). isl (currentOperations s c)) servers of
        Some (s, c) \<Rightarrow> Inl (projl (currentOperations s c))
      | None \<Rightarrow> Inr (concat (map (\<lambda>(s, c). projr (currentOperations s c)) servers))) \<and>
   (main_operations servers = Inl e \<longrightarrow> main_reset table servers = (Inl e, table)) \<and>
   (main_operations servers = Inr ops \<longrightarrow>
      main_reset table servers = reset isPrintable sortOrder table ops)"
  using main_operations_find [of servers] by (simp add: main_reset_def)

theorem main_operations_all_or_nothing_witness:
  "main_operations [(srv1, Inr [queryRecord]), (srv2, Inr [insertRecord])] =
     Inr [Query srv1 101 ''inventory.orders'' ''{}'' (Some 3), Operation srv2 202] \<and>
   main_reset Query_listPrinter [(srv1, Inr [queryRecord]), (srv2, Inr [insertRecord])] =
     reset isPrintable sortOrder Query_listPrinter
       [Query srv1 101 ''inventory.orders'' ''{}'' (Some 3), Operation srv2 202] \<and>
   main_operations [(srv1, Inr [queryRecord]), (srv2, Inl ConnectionFailure)] = Inl ConnectionFailure \<and>
   main_reset opsTable [(srv1, Inr [queryRecord]), (srv2, Inl ConnectionFailure)] =
     (Inl ConnectionFailure, opsTable)"
proof -
  have a: "main_operations [(srv1, Inr [queryRecord]), (srv2, Inr [insertRecord])] =
     Inr [Query srv1 101 ''inventory.orders'' ''{}'' (Some 3), Operation srv2 202]"
    by (simp add: currentOperations_def yieldOperation_def getitem_def insertRecord_def
        queryRecord_def)
  have b: "main_operations [(srv1, Inr [queryRecord]), (srv2, Inl ConnectionFailure)] =
     Inl ConnectionFailure"
    by (simp add: currentOperations_def yieldOperation_def getitem_def queryRecord_def)
  from main_operations_all_or_nothing
    [where servers = "[(srv1, Inr [queryRecord]), (srv2, Inr [insertRecord])]"
       and ops = "[Query srv1 101 ''inventory.orders'' ''{}'' (Some 3), Operation srv2 202]"
       and table = Query_listPrinter] a
  have c: "main_reset Query_listPrinter [(srv1, Inr [queryRecord]), (srv2, Inr [insertRecord])] =
     reset isPrintable sortOrder Query_listPrinter
       [Query srv1 101 ''inventory.orders'' ''{}'' (Some 3), Operation srv2 202]"
    by blast
  from main_operations_all_or_nothing
    [where servers = "[(srv1, Inr [queryRecord]), (srv2, Inl ConnectionFailure)]"
       and e = ConnectionFailure and table = opsTable] b
  have d: "main_reset opsTable [(srv1, Inr [queryRecord]), (srv2, Inl ConnectionFailure)] =
     (Inl ConnectionFailure, opsTable)"
    by blast
  from a b c d show ?thesis by blast
qed

end
